theory Spec2Isabelle
  imports Complex_Main
begin

section \<open>Tensor elements\<close>

text \<open>
  The samplers of \<^verbatim>\<open>LLM-Sampling-Techniques.ipynb\<close> work on floating-point tensors. An
  element is a finite number, an infinity or NaN. Finite arithmetic is exact (no rounding,
  no overflow, one zero); the special values follow IEEE 754, which is what decides how
  the samplers treat a NaN or an infinite logit.
\<close>

datatype float = Finite real | PosInf | NegInf | NaN

fun is_nan :: "float \<Rightarrow> bool" where
  "is_nan NaN = True"
| "is_nan _ = False"

fun is_finite :: "float \<Rightarrow> bool" where
  "is_finite (Finite _) = True"
| "is_finite _ = False"

text \<open>Comparisons: every comparison with NaN is false.\<close>

fun flt :: "float \<Rightarrow> float \<Rightarrow> bool" where
  "flt NaN _ = False"
| "flt _ NaN = False"
| "flt (Finite x) (Finite y) = (x < y)"
| "flt _ NegInf = False"
| "flt PosInf _ = False"
| "flt NegInf _ = True"
| "flt _ PosInf = True"

fun feq :: "float \<Rightarrow> float \<Rightarrow> bool" where
  "feq NaN _ = False"
| "feq _ NaN = False"
| "feq a b = (a = b)"

definition fgt :: "float \<Rightarrow> float \<Rightarrow> bool" where
  "fgt a b = flt b a"

definition fle :: "float \<Rightarrow> float \<Rightarrow> bool" where
  "fle a b = (flt a b \<or> feq a b)"

definition fge :: "float \<Rightarrow> float \<Rightarrow> bool" where
  "fge a b = fle b a"

fun fneg :: "float \<Rightarrow> float" where
  "fneg (Finite x) = Finite (- x)"
| "fneg PosInf = NegInf"
| "fneg NegInf = PosInf"
| "fneg NaN = NaN"

fun fadd :: "float \<Rightarrow> float \<Rightarrow> float" where
  "fadd NaN _ = NaN"
| "fadd _ NaN = NaN"
| "fadd (Finite x) (Finite y) = Finite (x + y)"
| "fadd PosInf NegInf = NaN"
| "fadd NegInf PosInf = NaN"
| "fadd PosInf _ = PosInf"
| "fadd NegInf _ = NegInf"
| "fadd (Finite x) b = b"

definition fsub :: "float \<Rightarrow> float \<Rightarrow> float" where
  "fsub a b = fadd a (fneg b)"

fun fdiv :: "float \<Rightarrow> float \<Rightarrow> float" where
  "fdiv NaN _ = NaN"
| "fdiv _ NaN = NaN"
| "fdiv (Finite x) (Finite y) =
     (if y \<noteq> 0 then Finite (x / y)
      else if x = 0 then NaN else if 0 < x then PosInf else NegInf)"
| "fdiv (Finite x) _ = Finite 0"
| "fdiv PosInf (Finite y) = (if 0 \<le> y then PosInf else NegInf)"
| "fdiv NegInf (Finite y) = (if 0 \<le> y then NegInf else PosInf)"
| "fdiv _ _ = NaN"

fun fexp :: "float \<Rightarrow> float" where
  "fexp (Finite x) = Finite (exp x)"
| "fexp PosInf = PosInf"
| "fexp NegInf = Finite 0"
| "fexp NaN = NaN"

text \<open>The maximum of a reduction propagates NaN.\<close>

definition fmax :: "float \<Rightarrow> float \<Rightarrow> float" where
  "fmax a b = (if is_nan a \<or> is_nan b then NaN else if flt a b then b else a)"

section \<open>Errors and results\<close>

text \<open>
  \<open>ConfigError\<close> and \<open>InvalidInput\<close> are the errors the specification names;
  \<open>TorchError\<close> stands for the exceptions the library raises by itself (the
  \<^verbatim>\<open>RuntimeError\<close> and \<^verbatim>\<open>IndexError\<close> of \<^verbatim>\<open>argmax\<close>, \<^verbatim>\<open>topk\<close> and
  \<^verbatim>\<open>multinomial\<close>). The notebook has no \<^verbatim>\<open>raise\<close> of its own besides the abstract
  base class.
\<close>

datatype error = ConfigError | InvalidInput | NotImplementedError | TorchError

text \<open>
  A call of a stochastic sampler is modelled by the set of indices it can return: the
  draw of \<^verbatim>\<open>torch.multinomial\<close> is the only use of the random generator. A
  deterministic result is the singleton set.
\<close>

type_synonym outcomes = "error + nat set"

definition returns :: "error + nat \<Rightarrow> outcomes" where
  "returns r = (case r of Inl e \<Rightarrow> Inl e | Inr i \<Rightarrow> Inr {i})"

section \<open>The library calls\<close>

subsection \<open>\<^verbatim>\<open>Tensor.argmax\<close>\<close>

text \<open>
  The argmax reduction keeps the running best \<open>(value, index)\<close> and replaces it only by an
  element that is strictly greater, or that is NaN when the best is not: the first
  maximal element wins, and NaN counts as the greatest value. An empty tensor raises.
\<close>

definition greater_or_nan :: "float \<Rightarrow> float \<Rightarrow> nat \<Rightarrow> nat \<Rightarrow> bool" where
  "greater_or_nan a b idx_a idx_b =
     (if is_nan a then (if is_nan b then idx_a < idx_b else True)
      else if feq a b then idx_a < idx_b else fgt a b)"

fun argmax_loop :: "float list \<Rightarrow> nat \<Rightarrow> float \<times> nat \<Rightarrow> nat" where
  "argmax_loop [] i acc = snd acc"
| "argmax_loop (x # xs) i acc =
     argmax_loop xs (Suc i) (if greater_or_nan (fst acc) x (snd acc) i then acc else (x, i))"

definition argmax :: "float list \<Rightarrow> error + nat" where
  "argmax xs = (case xs of [] \<Rightarrow> Inl TorchError | x # rest \<Rightarrow> Inr (argmax_loop rest 1 (x, 0)))"

subsection \<open>\<^verbatim>\<open>F.softmax\<close>, \<^verbatim>\<open>Tensor.sum\<close>, \<^verbatim>\<open>torch.cumsum\<close>\<close>

definition fsum :: "float list \<Rightarrow> float" where
  "fsum xs = foldl fadd (Finite 0) xs"

text \<open>The stable softmax: subtract the maximum, exponentiate, divide by the sum.\<close>

definition softmax :: "float list \<Rightarrow> float list" where
  "softmax input =
     (let max_input = foldl fmax NegInf input;
          tmp = map (\<lambda>x. fexp (fsub x max_input)) input;
          tmp_sum = fsum tmp
      in map (\<lambda>e. fdiv e tmp_sum) tmp)"

fun cumsum_from :: "float \<Rightarrow> float list \<Rightarrow> float list" where
  "cumsum_from acc [] = []"
| "cumsum_from acc (x # xs) = fadd acc x # cumsum_from (fadd acc x) xs"

definition cumsum :: "float list \<Rightarrow> float list" where
  "cumsum xs = cumsum_from (Finite 0) xs"

subsection \<open>\<^verbatim>\<open>torch.searchsorted\<close>\<close>

text \<open>
  With the default \<^verbatim>\<open>right=False\<close> the library runs a lower-bound binary search: on a
  sorted sequence the result is the first position whose element is \<open>\<ge>\<close> the value, and
  the length of the sequence when there is none.
\<close>

function cus_lower_bound :: "nat \<Rightarrow> nat \<Rightarrow> float \<Rightarrow> float list \<Rightarrow> nat" where
  "cus_lower_bound start end' val bd =
     (if start < end' then
        (let mid = start + (end' - start) div 2 in
         if \<not> fge (bd ! mid) val then cus_lower_bound (mid + 1) end' val bd
         else cus_lower_bound start mid val bd)
      else start)"
  by pat_completeness auto
termination
  by (relation "measure (\<lambda>(start, end', val, bd). end' - start)") auto

definition searchsorted :: "float list \<Rightarrow> float \<Rightarrow> nat" where
  "searchsorted sorted_sequence val = cus_lower_bound 0 (length sorted_sequence) val sorted_sequence"

subsection \<open>\<^verbatim>\<open>torch.topk\<close> and \<^verbatim>\<open>torch.sort\<close>\<close>

text \<open>
  Both calls return the selected values together with their positions. The library does
  not say which of several equal elements comes first (neither call is asked to be
  stable), so the positions it returns are an argument of the model, \<open>choice\<close>, and
  \<open>topk_result\<close> and \<open>sort_result\<close> say what the library promises about them. In the
  library's order NaN counts as the greatest value.
\<close>

definition torch_ge :: "float \<Rightarrow> float \<Rightarrow> bool" where
  "torch_ge a b = (is_nan a \<or> fge a b)"

definition topk_result :: "float list \<Rightarrow> int \<Rightarrow> nat list \<Rightarrow> bool" where
  "topk_result input kk indices =
     (int (length indices) = kk \<and> distinct indices \<and>
      list_all (\<lambda>i. i < length input) indices \<and>
      sorted_wrt (\<lambda>i j. torch_ge (input ! i) (input ! j)) indices \<and>
      list_all (\<lambda>j. j \<in> set indices \<or> list_all (\<lambda>i. torch_ge (input ! i) (input ! j)) indices)
        [0..<length input])"

text \<open>\<^verbatim>\<open>torch.topk(input, k)\<close> raises when \<open>k\<close> is negative or exceeds the length.\<close>

definition topk :: "float list \<Rightarrow> int \<Rightarrow> nat list \<Rightarrow> error + (float list \<times> nat list)" where
  "topk input kk choice =
     (if kk < 0 \<or> int (length input) < kk then Inl TorchError
      else Inr (map (\<lambda>i. input ! i) choice, choice))"

definition sort_result :: "float list \<Rightarrow> nat list \<Rightarrow> bool" where
  "sort_result input indices =
     (length indices = length input \<and> distinct indices \<and>
      list_all (\<lambda>i. i < length input) indices \<and>
      sorted_wrt (\<lambda>i j. torch_ge (input ! i) (input ! j)) indices)"

text \<open>\<^verbatim>\<open>torch.sort(input, descending=True)\<close>.\<close>

definition sort_descending :: "float list \<Rightarrow> nat list \<Rightarrow> float list \<times> nat list" where
  "sort_descending input choice = (map (\<lambda>i. input ! i) choice, choice)"

subsection \<open>\<^verbatim>\<open>torch.multinomial\<close>\<close>

text \<open>
  \<^verbatim>\<open>torch.multinomial(probs, num_samples=1)\<close> raises when there is no category, when an
  entry is infinite, NaN or negative, and when the weights sum to zero. Otherwise it draws
  a position with the weights as probabilities: every position of positive weight can be
  drawn, and no other.
\<close>

definition multinomial :: "float list \<Rightarrow> error + nat set" where
  "multinomial probs =
     (if length probs < 1 then Inl TorchError
      else if \<not> list_all (\<lambda>x. flt x PosInf \<and> fge x (Finite 0)) probs then Inl TorchError
      else if feq (fsum probs) (Finite 0) then Inl TorchError
      else Inr (set (filter (\<lambda>i. flt (Finite 0) (probs ! i)) [0..<length probs])))"

section \<open>The samplers\<close>

text \<open>
  \<^verbatim>\<open>class Sampler\<close>: the base class; its \<^verbatim>\<open>__call__\<close> raises \<^verbatim>\<open>NotImplementedError\<close>.
  A logits tensor is the one-dimensional vector of scores, index \<open>i\<close> for vocabulary id
  \<open>i\<close>.
\<close>

definition Sampler_call :: "float list \<Rightarrow> outcomes" where
  "Sampler_call logits = Inl NotImplementedError"

subsection \<open>\<^verbatim>\<open>GreedySampler\<close>\<close>

definition GreedySampler_call :: "float list \<Rightarrow> error + nat" where
  "GreedySampler_call logits = argmax logits"

subsection \<open>\<^verbatim>\<open>TemperatureSampler\<close>\<close>

record TemperatureSampler =
  temperature :: real

text \<open>\<^verbatim>\<open>__init__\<close> stores its argument; it has no check.\<close>

definition TemperatureSampler_init :: "real \<Rightarrow> error + TemperatureSampler" where
  "TemperatureSampler_init t = Inr \<lparr>temperature = t\<rparr>"

definition TemperatureSampler_probs :: "TemperatureSampler \<Rightarrow> float list \<Rightarrow> float list" where
  "TemperatureSampler_probs self logits =
     (let scaled_logits = map (\<lambda>x. fdiv x (Finite (temperature self))) logits
      in softmax scaled_logits)"

definition TemperatureSampler_call :: "TemperatureSampler \<Rightarrow> float list \<Rightarrow> outcomes" where
  "TemperatureSampler_call self logits =
     (if temperature self = 0 then returns (argmax logits)
      else multinomial (TemperatureSampler_probs self logits))"

subsection \<open>\<^verbatim>\<open>TopKSampler\<close>\<close>

record TopKSampler =
  k :: int

definition TopKSampler_init :: "int \<Rightarrow> error + TopKSampler" where
  "TopKSampler_init n = Inr \<lparr>k = n\<rparr>"

definition TopKSampler_probs ::
    "TopKSampler \<Rightarrow> float list \<Rightarrow> nat list \<Rightarrow> error + (float list \<times> nat list)" where
  "TopKSampler_probs self logits choice =
     (case topk logits (k self) choice of
        Inl e \<Rightarrow> Inl e
      | Inr (topk_logits, topk_indices) \<Rightarrow> Inr (softmax topk_logits, topk_indices))"

definition TopKSampler_call :: "TopKSampler \<Rightarrow> float list \<Rightarrow> nat list \<Rightarrow> outcomes" where
  "TopKSampler_call self logits choice =
     (case TopKSampler_probs self logits choice of
        Inl e \<Rightarrow> Inl e
      | Inr (topk_probs, topk_indices) \<Rightarrow>
          (case multinomial topk_probs of
             Inl e \<Rightarrow> Inl e
           | Inr next_token_idx \<Rightarrow> Inr ((\<lambda>j. topk_indices ! j) ` next_token_idx)))"

subsection \<open>\<^verbatim>\<open>TopPSampler\<close>\<close>

record TopPSampler =
  p :: real

definition TopPSampler_init :: "real \<Rightarrow> error + TopPSampler" where
  "TopPSampler_init x = Inr \<lparr>p = x\<rparr>"

text \<open>\<^verbatim>\<open>filtered_probs[n:] = 0\<close>: a slice that starts at or after the end changes nothing.\<close>

definition zero_from :: "nat \<Rightarrow> float list \<Rightarrow> float list" where
  "zero_from n xs = take n xs @ replicate (length xs - n) (Finite 0)"

definition TopPSampler_sorted :: "float list \<Rightarrow> nat list \<Rightarrow> float list \<times> nat list" where
  "TopPSampler_sorted logits choice = sort_descending (softmax logits) choice"

definition TopPSampler_cutoff_index :: "TopPSampler \<Rightarrow> float list \<Rightarrow> nat list \<Rightarrow> nat" where
  "TopPSampler_cutoff_index self logits choice =
     (let (sorted_probs, sorted_indices) = TopPSampler_sorted logits choice;
          cumulative_probs = cumsum sorted_probs
      in searchsorted cumulative_probs (Finite (p self)))"

definition TopPSampler_filtered_probs :: "TopPSampler \<Rightarrow> float list \<Rightarrow> nat list \<Rightarrow> float list" where
  "TopPSampler_filtered_probs self logits choice =
     (let (sorted_probs, sorted_indices) = TopPSampler_sorted logits choice;
          cutoff_index = TopPSampler_cutoff_index self logits choice;
          filtered_probs = zero_from (cutoff_index + 1) sorted_probs
      in map (\<lambda>x. fdiv x (fsum filtered_probs)) filtered_probs)"

definition TopPSampler_call :: "TopPSampler \<Rightarrow> float list \<Rightarrow> nat list \<Rightarrow> outcomes" where
  "TopPSampler_call self logits choice =
     (let (sorted_probs, sorted_indices) = TopPSampler_sorted logits choice in
      case multinomial (TopPSampler_filtered_probs self logits choice) of
        Inl e \<Rightarrow> Inl e
      | Inr next_token_index \<Rightarrow> Inr ((\<lambda>j. sorted_indices ! j) ` next_token_index))"

section \<open>Notions of the specification\<close>


text \<open>
  The top-k set as the specification words it, with ties broken by the lowest index:
  index \<open>j\<close> comes before index \<open>i\<close> when its logit is greater, or equal with \<open>j < i\<close>; the
  set holds the indices that fewer than \<open>n\<close> others come before.
\<close>

definition beats :: "float list \<Rightarrow> nat \<Rightarrow> nat \<Rightarrow> bool" where
  "beats logits j i =
     (\<not> torch_ge (logits ! i) (logits ! j) \<or> (torch_ge (logits ! j) (logits ! i) \<and> j < i))"

definition lowest_index_topk :: "float list \<Rightarrow> nat \<Rightarrow> nat set" where
  "lowest_index_topk logits n =
     set (filter (\<lambda>i. length (filter (\<lambda>j. beats logits j i) [0..<length logits]) < n)
        [0..<length logits])"



section \<open>The order of the library\<close>

declare cus_lower_bound.simps [simp del]

lemma torch_ge_total: "torch_ge a b \<or> torch_ge b a"
  by (cases a; cases b) (auto simp: torch_ge_def fge_def fle_def)

lemma torch_ge_trans: "torch_ge a b \<Longrightarrow> torch_ge b c \<Longrightarrow> torch_ge a c"
  by (cases a; cases b; cases c) (auto simp: torch_ge_def fge_def fle_def)

lemma torch_ge_refl: "torch_ge a a"
  by (cases a) (auto simp: torch_ge_def fge_def fle_def)

text \<open>On finite values \<open>torch_ge\<close> is the order of the reals.\<close>

lemma torch_ge_Finite [simp]: "torch_ge (Finite x) (Finite y) = (y \<le> x)"
  by (auto simp: torch_ge_def fge_def fle_def)

subsection \<open>\<^verbatim>\<open>argmax\<close> returns the first maximal element\<close>

lemma greater_or_nan_keep: "bi < i \<Longrightarrow> greater_or_nan b x bi i = torch_ge b x"
  by (cases b; cases x) (auto simp: greater_or_nan_def torch_ge_def fge_def fle_def fgt_def)

text \<open>
  The loop invariant: the accumulator holds the first maximal element of the prefix
  \<open>pre\<close> already read.
\<close>

lemma argmax_loop_first_max:
  assumes "length pre = i" "bi < i" "b = pre ! bi"
    and "\<forall>j<i. torch_ge b (pre ! j)"
    and "\<forall>j<bi. \<not> torch_ge (pre ! j) b"
  shows "argmax_loop xs i (b, bi) < length (pre @ xs) \<and>
         (\<forall>j<length (pre @ xs). torch_ge ((pre @ xs) ! argmax_loop xs i (b, bi)) ((pre @ xs) ! j)) \<and>
         (\<forall>j<argmax_loop xs i (b, bi). \<not> torch_ge ((pre @ xs) ! j) ((pre @ xs) ! argmax_loop xs i (b, bi)))"
  using assms
proof (induction xs arbitrary: pre i b bi)
  case Nil
  then show ?case by simp
next
  case (Cons x xs)
  let ?pre = "pre @ [x]"
  show ?case
  proof (cases "torch_ge b x")
    case True
    have a: "argmax_loop (x # xs) i (b, bi) = argmax_loop xs (Suc i) (b, bi)"
      using True Cons.prems(2) by (simp add: greater_or_nan_keep)
    have "\<forall>j<Suc i. torch_ge b (?pre ! j)"
      using Cons.prems True by (auto simp: nth_append less_Suc_eq)
    moreover have "\<forall>j<bi. \<not> torch_ge (?pre ! j) b"
      using Cons.prems by (auto simp: nth_append)
    moreover have "b = ?pre ! bi" using Cons.prems by (simp add: nth_append)
    ultimately show ?thesis
      using Cons.IH[of ?pre "Suc i" bi b] Cons.prems(1,2) unfolding a by simp
  next
    case False
    have a: "argmax_loop (x # xs) i (b, bi) = argmax_loop xs (Suc i) (x, i)"
      using False Cons.prems(2) by (simp add: greater_or_nan_keep)
    have xb: "torch_ge x b" using False torch_ge_total by blast
    have "\<forall>j<Suc i. torch_ge x (?pre ! j)"
    proof (intro allI impI)
      fix j assume j: "j < Suc i"
      show "torch_ge x (?pre ! j)"
      proof (cases "j = i")
        case True
        then show ?thesis using Cons.prems(1) by (simp add: nth_append torch_ge_refl)
      next
        case False
        then have ji: "j < i" using j by simp
        then have "torch_ge b (pre ! j)" using Cons.prems(4) by blast
        then have "torch_ge x (pre ! j)" using xb torch_ge_trans by blast
        then show ?thesis using ji Cons.prems(1) by (simp add: nth_append)
      qed
    qed
    moreover have "\<forall>j<i. \<not> torch_ge (?pre ! j) x"
    proof (intro allI impI notI)
      fix j assume ji: "j < i" and g: "torch_ge (?pre ! j) x"
      have "torch_ge b (pre ! j)" using Cons.prems(4) ji by blast
      moreover have "torch_ge (pre ! j) x" using g ji Cons.prems(1) by (simp add: nth_append)
      ultimately have "torch_ge b x" using torch_ge_trans by blast
      then show False using \<open>\<not> torch_ge b x\<close> by simp
    qed
    moreover have "x = ?pre ! i" using Cons.prems by (simp add: nth_append)
    ultimately show ?thesis
      using Cons.IH[of ?pre "Suc i" i x] Cons.prems(1) unfolding a by simp
  qed
qed

lemma argmax_first_max:
  assumes "xs \<noteq> []"
  shows "\<exists>i. argmax xs = Inr i \<and> i < length xs \<and>
           (\<forall>j<length xs. torch_ge (xs ! i) (xs ! j)) \<and>
           (\<forall>j<i. \<not> torch_ge (xs ! j) (xs ! i))"
proof -
  obtain x rest where l: "xs = x # rest" using assms by (cases xs) auto
  have "argmax_loop rest 1 (x, 0) < length ([x] @ rest) \<and>
         (\<forall>j<length ([x] @ rest). torch_ge (([x] @ rest) ! argmax_loop rest 1 (x, 0)) (([x] @ rest) ! j)) \<and>
         (\<forall>j<argmax_loop rest 1 (x, 0). \<not> torch_ge (([x] @ rest) ! j) (([x] @ rest) ! argmax_loop rest 1 (x, 0)))"
    by (rule argmax_loop_first_max) (auto simp: torch_ge_refl)
  then show ?thesis
    by (simp add: argmax_def l)
qed

section \<open>Errors of the calls\<close>

text \<open>Every error of a sampler call is an error of the library.\<close>

lemma argmax_error: "argmax xs = Inl e \<Longrightarrow> e = TorchError"
  by (auto simp: argmax_def split: list.splits)

lemma multinomial_error: "multinomial probs = Inl e \<Longrightarrow> e = TorchError"
  by (auto simp: multinomial_def split: if_splits)

lemma topk_error: "topk input kk choice = Inl e \<Longrightarrow> e = TorchError"
  by (auto simp: topk_def split: if_splits)

lemma GreedySampler_error: "GreedySampler_call logits = Inl e \<Longrightarrow> e = TorchError"
  by (simp add: GreedySampler_call_def argmax_error)

lemma TemperatureSampler_error: "TemperatureSampler_call self logits = Inl e \<Longrightarrow> e = TorchError"
  by (auto simp: TemperatureSampler_call_def returns_def split: if_splits sum.splits
      dest: argmax_error multinomial_error)

lemma TopKSampler_error: "TopKSampler_call self logits choice = Inl e \<Longrightarrow> e = TorchError"
  by (auto simp: TopKSampler_call_def TopKSampler_probs_def split: sum.splits prod.splits
      dest: topk_error multinomial_error)

lemma TopPSampler_error: "TopPSampler_call self logits choice = Inl e \<Longrightarrow> e = TorchError"
  by (auto simp: TopPSampler_call_def split: sum.splits prod.splits dest: multinomial_error)

lemma softmax_Nil [simp]: "softmax [] = []"
  by (simp add: softmax_def)

lemma multinomial_Nil [simp]: "multinomial [] = Inl TorchError"
  by (simp add: multinomial_def)

section \<open>NaN propagates to the draw\<close>

lemma fmax_NaN_left [simp]: "fmax NaN b = NaN" by (simp add: fmax_def)

lemma fmax_NaN_right [simp]: "fmax a NaN = NaN" by (simp add: fmax_def)

lemma foldl_fmax_NaN [simp]: "foldl fmax NaN xs = NaN"
  by (induction xs) auto

lemma foldl_fmax_has_NaN: "NaN \<in> set xs \<Longrightarrow> foldl fmax a xs = NaN"
  by (induction xs arbitrary: a) auto

lemma fsub_NaN [simp]: "fsub x NaN = NaN"
  by (cases x) (auto simp: fsub_def)

lemma fadd_NaN_right [simp]: "fadd x NaN = NaN"
  by (cases x) auto

lemma fdiv_NaN_right [simp]: "fdiv x NaN = NaN"
  by (cases x) auto

lemma softmax_has_NaN: "NaN \<in> set xs \<Longrightarrow> softmax xs = replicate (length xs) NaN"
  by (simp add: softmax_def foldl_fmax_has_NaN comp_def map_replicate_const)

lemma multinomial_has_NaN: "NaN \<in> set probs \<Longrightarrow> multinomial probs = Inl TorchError"
  by (auto simp: multinomial_def list_all_iff)

lemma foldl_fadd_NaN [simp]: "foldl fadd NaN xs = NaN"
  by (induction xs) auto

lemma fsum_has_NaN: "NaN \<in> set xs \<Longrightarrow> fsum xs = NaN"
proof -
  have "NaN \<in> set xs \<Longrightarrow> foldl fadd a xs = NaN" for a
    by (induction xs arbitrary: a) auto
  then show "NaN \<in> set xs \<Longrightarrow> fsum xs = NaN" by (simp add: fsum_def)
qed

lemma cumsum_from_length [simp]: "length (cumsum_from a xs) = length xs"
  by (induction xs arbitrary: a) auto

lemma zero_from_length [simp]: "length (zero_from n xs) = length xs"
  by (simp add: zero_from_def)

section \<open>Finite logits\<close>

text \<open>On finite values the tensor operations are the operations of the reals.\<close>

lemma finite_list_conv:
  assumes "list_all is_finite xs"
  obtains rs where "xs = map Finite rs"
proof -
  have "\<exists>rs. xs = map Finite rs" using assms
  proof (induction xs)
    case Nil then show ?case by simp
  next
    case (Cons x xs)
    then obtain rs where "xs = map Finite rs" by auto
    moreover obtain r where "x = Finite r" using Cons.prems by (cases x) auto
    ultimately have "x # xs = map Finite (r # rs)" by simp
    then show ?case by (rule exI)
  qed
  then show thesis using that by blast
qed

lemma sum_list_pos_real:
  fixes xs :: "real list"
  assumes "xs \<noteq> []" "\<forall>x\<in>set xs. 0 < x"
  shows "0 < sum_list xs"
proof -
  obtain x rest where xs: "xs = x # rest" using assms(1) by (cases xs) auto
  have "0 \<le> sum_list rest" using assms(2) xs by (intro sum_list_nonneg) (auto intro: less_imp_le)
  moreover have "0 < x" using assms(2) xs by simp
  ultimately show ?thesis using xs by simp
qed

lemma sum_list_divide_real:
  fixes c :: real
  shows "sum_list (map (\<lambda>r. f r / c) rs) = sum_list (map f rs) / c"
  by (induction rs) (auto simp: add_divide_distrib)

lemma foldl_fadd_Finite: "foldl fadd (Finite a) (map Finite qs) = Finite (a + sum_list qs)"
  by (induction qs arbitrary: a) (auto simp: algebra_simps)

lemma fsum_Finite [simp]: "fsum (map Finite qs) = Finite (sum_list qs)"
  by (simp add: fsum_def foldl_fadd_Finite)

lemma foldl_fmax_Finite: "\<exists>M. foldl fmax (Finite a) (map Finite rs) = Finite M"
  by (induction rs arbitrary: a) (auto simp: fmax_def)

lemma softmax_max_Finite:
  assumes "rs \<noteq> []"
  shows "\<exists>M. foldl fmax NegInf (map Finite rs) = Finite M"
proof -
  obtain r rest where "rs = r # rest" using assms by (cases rs) auto
  then show ?thesis using foldl_fmax_Finite[of r rest] by (simp add: fmax_def)
qed

lemma softmax_Finite:
  assumes "rs \<noteq> []"
  shows "\<exists>M. softmax (map Finite rs) =
           map Finite (map (\<lambda>r. exp (r - M) / sum_list (map (\<lambda>r. exp (r - M)) rs)) rs)"
proof -
  obtain M where M: "foldl fmax NegInf (map Finite rs) = Finite M"
    using softmax_max_Finite[OF assms] by blast
  have tmp: "map (\<lambda>x. fexp (fsub x (Finite M))) (map Finite rs) = map Finite (map (\<lambda>r. exp (r - M)) rs)"
    by (simp add: fsub_def)
  have pos: "0 < sum_list (map (\<lambda>r. exp (r - M)) rs)"
    using assms by (intro sum_list_pos_real) auto
  show ?thesis
    unfolding softmax_def M Let_def tmp fsum_Finite
    using pos by (intro exI[of _ M]) (simp add: comp_def)
qed

text \<open>The softmax of finite logits: positive reals that sum to 1.\<close>

lemma softmax_Finite_dist:
  assumes "rs \<noteq> []"
  obtains ps where "softmax (map Finite rs) = map Finite ps" "length ps = length rs"
    "\<forall>q\<in>set ps. 0 < q" "sum_list ps = 1"
proof -
  obtain M where M: "softmax (map Finite rs) =
           map Finite (map (\<lambda>r. exp (r - M) / sum_list (map (\<lambda>r. exp (r - M)) rs)) rs)"
    using softmax_Finite[OF assms] by blast
  let ?S = "sum_list (map (\<lambda>r. exp (r - M)) rs)"
  let ?ps = "map (\<lambda>r. exp (r - M) / ?S) rs"
  have pos: "0 < ?S" using assms by (intro sum_list_pos_real) auto
  have "sum_list ?ps = ?S / ?S"
    by (simp add: sum_list_divide_real)
  then have "sum_list ?ps = 1" using pos by simp
  moreover have "\<forall>q\<in>set ?ps. 0 < q" using pos by auto
  ultimately show thesis using that[of ?ps] M by simp
qed

lemma multinomial_Finite:
  assumes "qs \<noteq> []" "\<forall>q\<in>set qs. 0 \<le> q" "sum_list qs \<noteq> 0"
  shows "multinomial (map Finite qs) = Inr {i. i < length qs \<and> 0 < qs ! i}"
proof -
  have "list_all (\<lambda>x. flt x PosInf \<and> fge x (Finite 0)) (map Finite qs)"
    using assms(2) by (auto simp: list_all_iff fge_def fle_def)
  moreover have "\<not> feq (fsum (map Finite qs)) (Finite 0)" using assms(3) by simp
  moreover have "set (filter (\<lambda>i. flt (Finite 0) (map Finite qs ! i)) [0..<length (map Finite qs)])
      = {i. i < length qs \<and> 0 < qs ! i}" by auto
  ultimately show ?thesis using assms(1) unfolding multinomial_def
    by (simp del: set_filter)
qed



section \<open>The contracts of \<^verbatim>\<open>topk\<close> and \<^verbatim>\<open>sort\<close>\<close>

lemma topk_result_props:
  assumes "topk_result input kk indices"
  shows "int (length indices) = kk" "distinct indices" "\<forall>i\<in>set indices. i < length input"
    "\<forall>j<length input. j \<notin> set indices \<longrightarrow> (\<forall>i\<in>set indices. torch_ge (input ! i) (input ! j))"
  using assms by (auto simp: topk_result_def list_all_iff)

lemma topk_rank:
  assumes "topk_result input kk indices" "i \<in> set indices"
  shows "card {j. j < length input \<and> \<not> torch_ge (input ! i) (input ! j)} < nat kk"
proof -
  note tk = topk_result_props[OF assms(1)]
  have "{j. j < length input \<and> \<not> torch_ge (input ! i) (input ! j)} \<subseteq> set indices - {i}"
    using tk(4) assms(2) by (auto simp: torch_ge_refl)
  then have "card {j. j < length input \<and> \<not> torch_ge (input ! i) (input ! j)} \<le> card (set indices - {i})"
    by (intro card_mono) auto
  also have "\<dots> < card (set indices)" using assms(2) by (intro card_Diff1_less) auto
  also have "\<dots> = nat kk" using tk(1,2) by (simp add: distinct_card)
  finally show ?thesis .
qed



section \<open>The binary search of \<^verbatim>\<open>searchsorted\<close>\<close>






section \<open>The distributions the samplers draw from\<close>


lemma TopKSampler_probs_dist:
  assumes "list_all is_finite logits" "1 \<le> k self" "topk_result logits (k self) choice"
  obtains ps where "TopKSampler_probs self logits choice = Inr (map Finite ps, choice)"
    "softmax (map (\<lambda>i. logits ! i) choice) = map Finite ps"
    "length ps = length choice" "\<forall>q\<in>set ps. 0 < q" "sum_list ps = 1"
proof -
  obtain rs where rs: "logits = map Finite rs" using assms(1) by (rule finite_list_conv)
  note tk = topk_result_props[OF assms(3)]
  have ne: "choice \<noteq> []" using tk(1) assms(2) by auto
  have "card (set choice) \<le> card {..<length logits}"
    using tk(3) by (intro card_mono) auto
  then have le: "k self \<le> int (length logits)" using tk(1,2) by (simp add: distinct_card)
  have vals: "map (\<lambda>i. logits ! i) choice = map Finite (map (\<lambda>i. rs ! i) choice)"
    using tk(3) rs by simp
  have ne': "map (\<lambda>i. rs ! i) choice \<noteq> []" using ne by simp
  obtain ps where ps: "softmax (map Finite (map (\<lambda>i. rs ! i) choice)) = map Finite ps"
    "length ps = length (map (\<lambda>i. rs ! i) choice)" "\<forall>q\<in>set ps. 0 < q" "sum_list ps = 1"
    using softmax_Finite_dist[OF ne'] by blast
  have "TopKSampler_probs self logits choice = Inr (map Finite ps, choice)"
    using le assms(2) ps(1) unfolding TopKSampler_probs_def topk_def vals by simp
  then show thesis using that[of ps] ps unfolding vals by simp
qed

lemma TopKSampler_outcomes:
  assumes "list_all is_finite logits" "1 \<le> k self" "topk_result logits (k self) choice"
  shows "TopKSampler_call self logits choice = Inr (set choice)"
proof -
  obtain ps where ps: "TopKSampler_probs self logits choice = Inr (map Finite ps, choice)"
    "length ps = length choice" "\<forall>q\<in>set ps. 0 < q" "sum_list ps = 1"
    using TopKSampler_probs_dist[OF assms] by metis
  note tk = topk_result_props[OF assms(3)]
  have ne: "ps \<noteq> []" using tk(1) assms(2) ps(2) by auto
  have m: "multinomial (map Finite ps) = Inr {i. i < length ps \<and> 0 < ps ! i}"
    using ps(3,4) by (intro multinomial_Finite[OF ne]) (auto intro: less_imp_le)
  have "{i. i < length ps \<and> 0 < ps ! i} = {..<length choice}" using ps(2,3) by auto
  moreover have "(\<lambda>j. choice ! j) ` {..<length choice} = set choice"
    by (auto simp: in_set_conv_nth)
  ultimately show ?thesis unfolding TopKSampler_call_def ps(1) by (simp add: m)
qed








section \<open>Invalid logits\<close>

lemma Temperature_NaN:
  assumes "NaN \<in> set logits" "temperature self \<noteq> 0"
  shows "TemperatureSampler_call self logits = Inl TorchError"
proof -
  let ?sc = "map (\<lambda>x. fdiv x (Finite (temperature self))) logits"
  have n: "NaN \<in> set ?sc" using assms(1) by (auto intro!: image_eqI[where x = NaN])
  have "logits \<noteq> []" using assms(1) by auto
  then have "NaN \<in> set (softmax ?sc)" using softmax_has_NaN[OF n] by (cases logits) auto
  then show ?thesis using assms(2)
    by (simp add: TemperatureSampler_call_def TemperatureSampler_probs_def multinomial_has_NaN)
qed

lemma TopK_NaN:
  assumes "NaN \<in> set logits" "1 \<le> k self" "topk_result logits (k self) choice"
  shows "TopKSampler_call self logits choice = Inl TorchError"
proof -
  from assms(3) have len: "int (length choice) = k self"
    and lt: "\<forall>i\<in>set choice. i < length logits"
    and dom: "\<forall>j<length logits. j \<in> set choice \<or> (\<forall>i\<in>set choice. torch_ge (logits ! i) (logits ! j))"
    by (auto simp: topk_result_def list_all_iff)
  obtain j where j: "j < length logits" "logits ! j = NaN"
    using assms(1) by (auto simp: in_set_conv_nth)
  have ne: "choice \<noteq> []" using len assms(2) by auto
  have "\<exists>i\<in>set choice. logits ! i = NaN"
  proof (cases "j \<in> set choice")
    case True then show ?thesis using j by auto
  next
    case False
    obtain i where i: "i \<in> set choice" using ne by (cases choice) auto
    then have "torch_ge (logits ! i) NaN" using dom j False by auto
    then have "logits ! i = NaN" by (cases "logits ! i") (auto simp: torch_ge_def fge_def fle_def)
    then show ?thesis using i by auto
  qed
  then have n: "NaN \<in> set (map (\<lambda>i. logits ! i) choice)" by force
  have "NaN \<in> set (softmax (map (\<lambda>i. logits ! i) choice))"
    using softmax_has_NaN[OF n] ne by (cases choice) auto
  moreover have "\<not> (k self < 0 \<or> int (length logits) < k self)"
  proof -
    have "card (set choice) \<le> card {..<length logits}"
      using lt by (intro card_mono) auto
    moreover have "card (set choice) = length choice" using assms(3) by (simp add: topk_result_def distinct_card)
    ultimately show ?thesis using len assms(2) by auto
  qed
  ultimately show ?thesis
    by (simp add: TopKSampler_call_def TopKSampler_probs_def topk_def multinomial_has_NaN)
qed

lemma TopP_NaN:
  assumes "NaN \<in> set logits" "sort_result (softmax logits) choice"
  shows "TopPSampler_call self logits choice = Inl TorchError"
proof -
  have ne: "logits \<noteq> []" using assms(1) by auto
  have sm: "softmax logits = replicate (length logits) NaN" using softmax_has_NaN[OF assms(1)] .
  from assms(2) have len: "length choice = length logits"
    and lt: "\<forall>i\<in>set choice. i < length logits"
    by (auto simp: sort_result_def list_all_iff sm)
  have sorted: "map (\<lambda>i. softmax logits ! i) choice = replicate (length logits) NaN"
    using lt len by (auto simp: sm list_eq_iff_nth_eq)
  define c where "c = TopPSampler_cutoff_index self logits choice"
  define f where "f = zero_from (Suc c) (replicate (length logits) NaN)"
  have "f ! 0 = NaN" using ne by (cases logits) (auto simp: f_def zero_from_def)
  moreover have "length f = length logits" by (simp add: f_def)
  ultimately have fn: "NaN \<in> set f" using ne by (metis length_greater_0_conv nth_mem)
  have "map (\<lambda>x. fdiv x (fsum f)) f = replicate (length logits) NaN"
    using \<open>length f = length logits\<close> by (auto simp: fsum_has_NaN[OF fn] list_eq_iff_nth_eq)
  then have "TopPSampler_filtered_probs self logits choice = replicate (length logits) NaN"
    by (simp add: TopPSampler_filtered_probs_def TopPSampler_sorted_def sort_descending_def
        sorted c_def[symmetric] f_def[symmetric] Let_def)
  moreover have "NaN \<in> set (replicate (length logits) NaN)" using ne by simp
  ultimately show ?thesis
    by (simp add: TopPSampler_call_def TopPSampler_sorted_def sort_descending_def multinomial_has_NaN)
qed

section \<open>Concrete softmax values and sums, for the examples\<close>


lemma softmax_zeros: "softmax [Finite 0, Finite 0] = [Finite (1 / 2), Finite (1 / 2)]"
  by (simp add: softmax_def fmax_def fsub_def fsum_def)


section \<open>Ties in \<^verbatim>\<open>torch.topk\<close>\<close>

lemma torch_ge_antisym_Finite:
  assumes "is_finite x" "is_finite y" "torch_ge x y" "torch_ge y x"
  shows "x = y"
  using assms by (cases x; cases y) auto

lemma topk_no_ties:
  assumes "list_all is_finite logits" "distinct logits" "topk_result logits kk choice"
  shows "set choice = lowest_index_topk logits (nat kk)"
proof -
  note tk = topk_result_props [OF assms(3)]
  have fin: "\<And>i. i < length logits \<Longrightarrow> is_finite (logits ! i)"
    using assms(1) by (simp add: list_all_length)
  have strict: "\<not> torch_ge (logits ! i) (logits ! j)"
    if "i < length logits" "j < length logits" "i \<noteq> j" "torch_ge (logits ! j) (logits ! i)" for i j
  proof
    assume "torch_ge (logits ! i) (logits ! j)"
    then have "logits ! i = logits ! j"
      using torch_ge_antisym_Finite [OF fin [OF that(1)] fin [OF that(2)]] that(4) by blast
    then show False using assms(2) that(1,2,3) by (simp add: nth_eq_iff_index_eq)
  qed
  have beats: "beats logits j i = (\<not> torch_ge (logits ! i) (logits ! j))"
    if "i < length logits" "j < length logits" for i j
  proof (cases "i = j")
    case True
    then show ?thesis by (simp add: beats_def torch_ge_refl)
  next
    case False
    then show ?thesis using strict [OF that False] by (auto simp: beats_def)
  qed
  have count: "length (filter (\<lambda>j. beats logits j i) [0..<length logits]) =
      card {j. j < length logits \<and> \<not> torch_ge (logits ! i) (logits ! j)}"
    if "i < length logits" for i
  proof -
    have "filter (\<lambda>j. beats logits j i) [0..<length logits] =
        filter (\<lambda>j. \<not> torch_ge (logits ! i) (logits ! j)) [0..<length logits]"
      using beats [OF that] by (intro filter_cong) auto
    moreover have "length (filter (\<lambda>j. \<not> torch_ge (logits ! i) (logits ! j)) [0..<length logits]) =
        card (set (filter (\<lambda>j. \<not> torch_ge (logits ! i) (logits ! j)) [0..<length logits]))"
      by (intro distinct_card [symmetric]) simp
    moreover have "set (filter (\<lambda>j. \<not> torch_ge (logits ! i) (logits ! j)) [0..<length logits]) =
        {j. j < length logits \<and> \<not> torch_ge (logits ! i) (logits ! j)}" by auto
    ultimately show ?thesis by simp
  qed
  have spec: "i \<in> lowest_index_topk logits (nat kk) \<longleftrightarrow>
      i < length logits \<and> card {j. j < length logits \<and> \<not> torch_ge (logits ! i) (logits ! j)} < nat kk" for i
    using count [of i] by (auto simp: lowest_index_topk_def)
  show ?thesis
  proof (intro set_eqI iffI)
    fix i assume i: "i \<in> set choice"
    then show "i \<in> lowest_index_topk logits (nat kk)"
      using topk_rank [OF assms(3) i] tk(3) by (simp add: spec)
  next
    fix i assume i: "i \<in> lowest_index_topk logits (nat kk)"
    then have iV: "i < length logits"
      and c: "card {j. j < length logits \<and> \<not> torch_ge (logits ! i) (logits ! j)} < nat kk"
      by (simp_all add: spec)
    show "i \<in> set choice"
    proof (rule ccontr)
      assume ni: "i \<notin> set choice"
      have "set choice \<subseteq> {j. j < length logits \<and> \<not> torch_ge (logits ! i) (logits ! j)}"
      proof
        fix c assume cc: "c \<in> set choice"
        then have cV: "c < length logits" using tk(3) by blast
        have "torch_ge (logits ! c) (logits ! i)" using tk(4) iV ni cc by blast
        moreover have "c \<noteq> i" using cc ni by auto
        ultimately have "\<not> torch_ge (logits ! i) (logits ! c)"
          using strict [OF iV cV] by blast
        then show "c \<in> {j. j < length logits \<and> \<not> torch_ge (logits ! i) (logits ! j)}"
          using cV by simp
      qed
      then have "card (set choice) \<le> card {j. j < length logits \<and> \<not> torch_ge (logits ! i) (logits ! j)}"
        by (intro card_mono) auto
      moreover have "card (set choice) = nat kk" using tk(1,2) by (simp add: distinct_card)
      ultimately show False using c by simp
    qed
  qed
qed

section \<open>GreedySampler\<close>

text \<open>
  Claim C4. For every non-empty logits vector \<^verbatim>\<open>GreedySampler\<close> returns the lowest
  vocabulary index among the indices that achieve the maximum logit: the returned index
  \<open>i\<close> holds a logit that is \<open>\<ge>\<close> every other, and every index below \<open>i\<close> holds a strictly
  smaller one. The result is a function of the logits alone: \<open>GreedySampler_call\<close> has no
  draw and no choice of the library among its arguments, so the call is deterministic and
  uses no randomness. The order is \<open>torch_ge\<close>, which is \<open>\<ge>\<close> of the reals on finite logits
  (\<open>torch_ge_Finite\<close>).
\<close>

theorem GreedySampler_lowest_max_index:
  assumes "logits \<noteq> []"
  shows "\<exists>i. GreedySampler_call logits = Inr i \<and> i < length logits \<and>
           (\<forall>j<length logits. torch_ge (logits ! i) (logits ! j)) \<and>
           (\<forall>j<i. \<not> torch_ge (logits ! j) (logits ! i))"
  using argmax_first_max [OF assms] by (simp add: GreedySampler_call_def)

theorem GreedySampler_lowest_max_index_witness:
  "[Finite 1, Finite 3, Finite 3, Finite 2] \<noteq> [] \<and>
   GreedySampler_call [Finite 1, Finite 3, Finite 3, Finite 2] = Inr 1 \<and>
   (\<exists>i. GreedySampler_call [Finite 1, Finite 3, Finite 3, Finite 2] = Inr i \<and>
        i < length [Finite 1, Finite 3, Finite 3, Finite 2 :: float] \<and>
        (\<forall>j<length [Finite 1, Finite 3, Finite 3, Finite 2 :: float].
            torch_ge ([Finite 1, Finite 3, Finite 3, Finite 2] ! i)
              ([Finite 1, Finite 3, Finite 3, Finite 2] ! j)) \<and>
        (\<forall>j<i. \<not> torch_ge ([Finite 1, Finite 3, Finite 3, Finite 2] ! j)
              ([Finite 1, Finite 3, Finite 3, Finite 2] ! i)))"
proof -
  have ne: "[Finite 1, Finite 3, Finite 3, Finite 2] \<noteq> []" by simp
  have ev: "GreedySampler_call [Finite 1, Finite 3, Finite 3, Finite 2] = Inr 1"
    by (simp add: GreedySampler_call_def argmax_def greater_or_nan_def fgt_def)
  show ?thesis
    using ne ev GreedySampler_lowest_max_index [OF ne] by blast
qed

section \<open>TemperatureSampler\<close>

text \<open>
  Claim C3. With \<open>temperature = 0\<close> a call of \<^verbatim>\<open>TemperatureSampler\<close> returns what
  \<^verbatim>\<open>GreedySampler\<close> returns on the same logits, for every logits vector: the same single
  index, or the same error on an empty vector. In \<open>TemperatureSampler_call\<close> the branch
  on \<open>temperature = 0\<close> comes before the division of the logits by the temperature.
\<close>

theorem TemperatureSampler_zero_is_greedy:
  "TemperatureSampler_call \<lparr>temperature = 0\<rparr> logits =
     (case GreedySampler_call logits of Inl e \<Rightarrow> Inl e | Inr i \<Rightarrow> Inr {i})"
  by (simp add: TemperatureSampler_call_def GreedySampler_call_def returns_def)

section \<open>TopKSampler\<close>

text \<open>
  Claim C5. For finite logits of length \<open>V\<close> and \<open>1 \<le> k \<le> V\<close>, the indices a call of
  \<^verbatim>\<open>TopKSampler\<close> can return are exactly the \<open>k\<close> indices selected by \<^verbatim>\<open>torch.topk\<close>. Each
  of them holds one of the \<open>k\<close> largest logits: fewer than \<open>k\<close> indices hold a strictly
  larger logit, and no unselected index holds a larger one. The draw is taken from the
  softmax of exactly those \<open>k\<close> logits and mapped back through \<^verbatim>\<open>topk_indices\<close>. When no two
  logits are equal this is the top-k set of the specification; among equal logits the
  selection is the library's, and the code adds no rule of lowest index.
\<close>

theorem TopKSampler_candidates:
  fixes self :: TopKSampler
  assumes "list_all is_finite logits" "1 \<le> k self" "k self \<le> int (length logits)"
    and "topk_result logits (k self) choice"
  shows "TopKSampler_call self logits choice = Inr (set choice) \<and>
         card (set choice) = nat (k self) \<and> set choice \<subseteq> {0..<length logits} \<and>
         (\<forall>i\<in>set choice.
             card {j. j < length logits \<and> \<not> torch_ge (logits ! i) (logits ! j)} < nat (k self)) \<and>
         (\<forall>i\<in>set choice. \<forall>j<length logits.
             j \<notin> set choice \<longrightarrow> torch_ge (logits ! i) (logits ! j)) \<and>
         TopKSampler_probs self logits choice = Inr (softmax (map (\<lambda>i. logits ! i) choice), choice) \<and>
         (distinct logits \<longrightarrow> set choice = lowest_index_topk logits (nat (k self)))"
proof -
  note tk = topk_result_props [OF assms(4)]
  have 7: "distinct logits \<longrightarrow> set choice = lowest_index_topk logits (nat (k self))"
    using topk_no_ties [OF assms(1) _ assms(4)] by blast
  have 1: "TopKSampler_call self logits choice = Inr (set choice)"
    by (rule TopKSampler_outcomes [OF assms(1,2,4)])
  have 2: "card (set choice) = nat (k self)" using tk(1,2) by (simp add: distinct_card)
  have 3: "set choice \<subseteq> {0..<length logits}" using tk(3) by auto
  have 4: "\<forall>i\<in>set choice.
      card {j. j < length logits \<and> \<not> torch_ge (logits ! i) (logits ! j)} < nat (k self)"
    using topk_rank [OF assms(4)] by blast
  have 5: "\<forall>i\<in>set choice. \<forall>j<length logits.
      j \<notin> set choice \<longrightarrow> torch_ge (logits ! i) (logits ! j)"
    using tk(4) by blast
  have 6: "TopKSampler_probs self logits choice = Inr (softmax (map (\<lambda>i. logits ! i) choice), choice)"
    using assms(2,3) by (simp add: TopKSampler_probs_def topk_def)
  show ?thesis by (intro conjI 1 2 3 4 5 6 7)
qed

theorem TopKSampler_candidates_witness:
  "list_all is_finite [Finite 3, Finite 1, Finite 2] \<and> 1 \<le> k \<lparr>k = 2\<rparr> \<and>
   k \<lparr>k = 2\<rparr> \<le> int (length [Finite 3, Finite 1, Finite 2]) \<and>
   topk_result [Finite 3, Finite 1, Finite 2] (k \<lparr>k = 2\<rparr>) [0, 2] \<and>
   TopKSampler_call \<lparr>k = 2\<rparr> [Finite 3, Finite 1, Finite 2] [0, 2] = Inr (set [0, 2]) \<and>
   card (set [0, 2 :: nat]) = nat (k \<lparr>k = 2\<rparr>) \<and>
   card {j. j < length [Finite 3, Finite 1, Finite 2] \<and>
          \<not> torch_ge ([Finite 3, Finite 1, Finite 2] ! 2) ([Finite 3, Finite 1, Finite 2] ! j)}
     < nat (k \<lparr>k = 2\<rparr>) \<and>
   torch_ge ([Finite 3, Finite 1, Finite 2] ! 2) ([Finite 3, Finite 1, Finite 2] ! 1) \<and>
   distinct [Finite 3, Finite 1, Finite 2] \<and>
   set [0, 2] = lowest_index_topk [Finite 3, Finite 1, Finite 2] (nat (k \<lparr>k = 2\<rparr>))"
proof -
  have di: "distinct [Finite 3, Finite 1, Finite 2]" by simp
  have h1: "list_all is_finite [Finite 3, Finite 1, Finite 2]" by simp
  have h2: "1 \<le> k \<lparr>k = 2\<rparr>" by simp
  have h3: "k \<lparr>k = 2\<rparr> \<le> int (length [Finite 3, Finite 1, Finite 2])" by simp
  have h4: "topk_result [Finite 3, Finite 1, Finite 2] (k \<lparr>k = 2\<rparr>) [0, 2]"
    by (simp add: topk_result_def upt_rec)
  note th = TopKSampler_candidates [OF h1 h2 h3 h4]
  have a: "TopKSampler_call \<lparr>k = 2\<rparr> [Finite 3, Finite 1, Finite 2] [0, 2] = Inr (set [0, 2])"
    using th by blast
  have b: "card (set [0, 2 :: nat]) = nat (k \<lparr>k = 2\<rparr>)" using th by blast
  have m: "(2 :: nat) \<in> set [0, 2]" by simp
  have c: "card {j. j < length [Finite 3, Finite 1, Finite 2] \<and>
          \<not> torch_ge ([Finite 3, Finite 1, Finite 2] ! 2) ([Finite 3, Finite 1, Finite 2] ! j)}
     < nat (k \<lparr>k = 2\<rparr>)"
    using th m by blast
  have n: "(1 :: nat) < length [Finite 3, Finite 1, Finite 2]" "(1 :: nat) \<notin> set [0, 2]" by simp_all
  have d: "torch_ge ([Finite 3, Finite 1, Finite 2] ! 2) ([Finite 3, Finite 1, Finite 2] ! 1)"
    using th m n by blast
  have e: "set [0, 2] = lowest_index_topk [Finite 3, Finite 1, Finite 2] (nat (k \<lparr>k = 2\<rparr>))"
    using th di by blast
  show ?thesis
    by (intro conjI h1 h2 h3 h4 a b c d di e)
qed

theorem TopKSampler_lowest_index_counterexample:
  "topk_result [Finite 1, Finite 1, Finite 1, Finite 1] 2 [2, 3] \<and>
   TopKSampler_call \<lparr>k = 2\<rparr> [Finite 1, Finite 1, Finite 1, Finite 1] [2, 3] = Inr {2, 3} \<and>
   lowest_index_topk [Finite 1, Finite 1, Finite 1, Finite 1] 2 = {0, 1} \<and>
   2 \<notin> lowest_index_topk [Finite 1, Finite 1, Finite 1, Finite 1] 2"
proof -
  have a: "topk_result [Finite 1, Finite 1, Finite 1, Finite 1] 2 [2, 3]"
    by (simp add: topk_result_def upt_rec)
  have b: "TopKSampler_call \<lparr>k = 2\<rparr> [Finite 1, Finite 1, Finite 1, Finite 1] [2, 3] = Inr {2, 3}"
    by (simp add: TopKSampler_call_def TopKSampler_probs_def topk_def softmax_def fmax_def fsub_def
        fsum_def multinomial_def fge_def fle_def upt_rec)
  have c: "lowest_index_topk [Finite 1, Finite 1, Finite 1, Finite 1] 2 = {0, 1}"
    by (simp add: lowest_index_topk_def beats_def upt_rec)
  have d: "2 \<notin> lowest_index_topk [Finite 1, Finite 1, Finite 1, Finite 1] 2"
    unfolding c by simp
  show ?thesis by (intro conjI a b c d)
qed

text \<open>
  Claim C2. When \<open>k\<close> exceeds the length of the logits vector, a call of
  \<^verbatim>\<open>TopKSampler\<close> fails with the error of \<^verbatim>\<open>torch.topk\<close>: \<open>k\<close> is not clamped.
\<close>

theorem TopKSampler_k_exceeds_vocabulary:
  fixes self :: TopKSampler
  assumes "int (length logits) < k self"
  shows "TopKSampler_call self logits choice = Inl TorchError"
  using assms by (simp add: TopKSampler_call_def TopKSampler_probs_def topk_def)

theorem TopKSampler_k_exceeds_vocabulary_witness:
  "int (length [Finite 1]) < k \<lparr>k = 5\<rparr> \<and>
   TopKSampler_call \<lparr>k = 5\<rparr> [Finite 1] [0] = Inl TorchError"
proof -
  have h: "int (length [Finite 1]) < k \<lparr>k = 5\<rparr>" by simp
  show ?thesis
    by (intro conjI h TopKSampler_k_exceeds_vocabulary [OF h])
qed

theorem TopKSampler_no_clamp_counterexample:
  "TopKSampler_call \<lparr>k = 3\<rparr> [Finite 0, Finite 0] [1, 0] = Inl TorchError \<and>
   TemperatureSampler_call \<lparr>temperature = 1\<rparr> [Finite 0, Finite 0] = Inr {0, 1}"
proof -
  have a: "TopKSampler_call \<lparr>k = 3\<rparr> [Finite 0, Finite 0] [1, 0] = Inl TorchError"
    by (simp add: TopKSampler_call_def TopKSampler_probs_def topk_def)
  have b: "TemperatureSampler_call \<lparr>temperature = 1\<rparr> [Finite 0, Finite 0] = Inr {0, 1}"
    by (simp add: TemperatureSampler_call_def TemperatureSampler_probs_def softmax_zeros
        multinomial_def fsum_def fge_def fle_def upt_rec)
  show ?thesis by (intro conjI a b)
qed

section \<open>TopPSampler\<close>









section \<open>All samplers\<close>



text \<open>
  Claim C7. The constructors check nothing: \<^verbatim>\<open>TemperatureSampler\<close>,
  \<^verbatim>\<open>TopKSampler\<close> and \<^verbatim>\<open>TopPSampler\<close> store every parameter value, also a negative
  temperature, \<open>k < 1\<close> and \<open>p\<close> outside \<open>(0, 1]\<close>, and return the sampler. \<open>ConfigError\<close> is
  raised neither at construction nor by a call.
\<close>

theorem constructors_accept_every_parameter:
  "TemperatureSampler_init t = Inr \<lparr>temperature = t\<rparr> \<and>
   TopKSampler_init n = Inr \<lparr>k = n\<rparr> \<and>
   TopPSampler_init x = Inr \<lparr>p = x\<rparr> \<and>
   GreedySampler_call logits \<noteq> Inl ConfigError \<and>
   TemperatureSampler_call s1 logits \<noteq> Inl ConfigError \<and>
   TopKSampler_call s2 logits c2 \<noteq> Inl ConfigError \<and>
   TopPSampler_call s3 logits c3 \<noteq> Inl ConfigError"
  using GreedySampler_error [of logits ConfigError] TemperatureSampler_error [of s1 logits ConfigError]
    TopKSampler_error [of s2 logits c2 ConfigError] TopPSampler_error [of s3 logits c3 ConfigError]
  by (auto simp: TemperatureSampler_init_def TopKSampler_init_def TopPSampler_init_def)

theorem constructors_no_ConfigError_counterexample:
  "TemperatureSampler_init (- 1) = Inr \<lparr>temperature = - 1\<rparr> \<and>
   TopKSampler_init 0 = Inr \<lparr>k = 0\<rparr> \<and>
   TopPSampler_init 2 = Inr \<lparr>p = 2\<rparr> \<and>
   TemperatureSampler_init (- 1) \<noteq> Inl ConfigError \<and>
   TopKSampler_init 0 \<noteq> Inl ConfigError \<and>
   TopPSampler_init 2 \<noteq> Inl ConfigError"
  by (simp add: TemperatureSampler_init_def TopKSampler_init_def TopPSampler_init_def)

text \<open>
  Claim C8. No sampler checks its logits, and no call raises \<open>InvalidInput\<close>. On
  an empty logits vector every call fails with the error of the library (\<^verbatim>\<open>argmax\<close>,
  \<^verbatim>\<open>topk\<close>, \<^verbatim>\<open>multinomial\<close>). On logits that contain NaN, \<^verbatim>\<open>GreedySampler\<close> and
  \<^verbatim>\<open>TemperatureSampler\<close> with temperature 0 raise nothing and return the index of the
  first NaN; the stochastic samplers carry the NaN through the softmax and fail only when
  \<^verbatim>\<open>torch.multinomial\<close> rejects the probabilities.
\<close>

theorem logits_are_not_validated:
  fixes s1 :: TemperatureSampler and s2 :: TopKSampler and s3 :: TopPSampler
  shows "GreedySampler_call logits \<noteq> Inl InvalidInput \<and>
         TemperatureSampler_call s1 logits \<noteq> Inl InvalidInput \<and>
         TopKSampler_call s2 logits c2 \<noteq> Inl InvalidInput \<and>
         TopPSampler_call s3 logits c3 \<noteq> Inl InvalidInput \<and>
         GreedySampler_call [] = Inl TorchError \<and>
         TemperatureSampler_call s1 [] = Inl TorchError \<and>
         (1 \<le> k s2 \<longrightarrow> TopKSampler_call s2 [] c2 = Inl TorchError) \<and>
         TopPSampler_call s3 [] [] = Inl TorchError \<and>
         (NaN \<in> set logits \<longrightarrow>
            (\<exists>i. GreedySampler_call logits = Inr i \<and> i < length logits \<and> logits ! i = NaN \<and>
                 (\<forall>j<i. logits ! j \<noteq> NaN) \<and>
                 TemperatureSampler_call \<lparr>temperature = 0\<rparr> logits = Inr {i})) \<and>
         (NaN \<in> set logits \<and> temperature s1 \<noteq> 0 \<longrightarrow>
            TemperatureSampler_call s1 logits = Inl TorchError) \<and>
         (NaN \<in> set logits \<and> 1 \<le> k s2 \<and> topk_result logits (k s2) c2 \<longrightarrow>
            TopKSampler_call s2 logits c2 = Inl TorchError) \<and>
         (NaN \<in> set logits \<and> sort_result (softmax logits) c3 \<longrightarrow>
            TopPSampler_call s3 logits c3 = Inl TorchError)"
proof -
  have 1: "GreedySampler_call logits \<noteq> Inl InvalidInput"
    using GreedySampler_error [of logits InvalidInput] by auto
  have 2: "TemperatureSampler_call s1 logits \<noteq> Inl InvalidInput"
    using TemperatureSampler_error [of s1 logits InvalidInput] by auto
  have 3: "TopKSampler_call s2 logits c2 \<noteq> Inl InvalidInput"
    using TopKSampler_error [of s2 logits c2 InvalidInput] by auto
  have 4: "TopPSampler_call s3 logits c3 \<noteq> Inl InvalidInput"
    using TopPSampler_error [of s3 logits c3 InvalidInput] by auto
  have 5: "GreedySampler_call [] = Inl TorchError"
    by (simp add: GreedySampler_call_def argmax_def)
  have 6: "TemperatureSampler_call s1 [] = Inl TorchError"
    by (simp add: TemperatureSampler_call_def TemperatureSampler_probs_def returns_def argmax_def)
  have 7: "1 \<le> k s2 \<longrightarrow> TopKSampler_call s2 [] c2 = Inl TorchError"
    by (simp add: TopKSampler_call_def TopKSampler_probs_def topk_def)
  have 8: "TopPSampler_call s3 [] [] = Inl TorchError"
    by (simp add: TopPSampler_call_def TopPSampler_filtered_probs_def TopPSampler_sorted_def
        sort_descending_def zero_from_def)
  have 9: "NaN \<in> set logits \<longrightarrow>
            (\<exists>i. GreedySampler_call logits = Inr i \<and> i < length logits \<and> logits ! i = NaN \<and>
                 (\<forall>j<i. logits ! j \<noteq> NaN) \<and>
                 TemperatureSampler_call \<lparr>temperature = 0\<rparr> logits = Inr {i})"
  proof
    assume n: "NaN \<in> set logits"
    then have "logits \<noteq> []" by auto
    then obtain i where i: "argmax logits = Inr i" "i < length logits"
      "\<forall>j<length logits. torch_ge (logits ! i) (logits ! j)"
      "\<forall>j<i. \<not> torch_ge (logits ! j) (logits ! i)"
      using argmax_first_max by blast
    obtain j where j: "j < length logits" "logits ! j = NaN"
      using n by (auto simp: in_set_conv_nth)
    then have "torch_ge (logits ! i) NaN" using i(3) by metis
    then have nan: "logits ! i = NaN"
      by (cases "logits ! i") (auto simp: torch_ge_def fge_def fle_def)
    have first: "\<forall>j<i. logits ! j \<noteq> NaN"
    proof (intro allI impI notI)
      fix j assume "j < i" "logits ! j = NaN"
      then have "torch_ge (logits ! j) (logits ! i)" by (simp add: torch_ge_def)
      then show False using i(4) \<open>j < i\<close> by blast
    qed
    show "\<exists>i. GreedySampler_call logits = Inr i \<and> i < length logits \<and> logits ! i = NaN \<and>
                 (\<forall>j<i. logits ! j \<noteq> NaN) \<and>
                 TemperatureSampler_call \<lparr>temperature = 0\<rparr> logits = Inr {i}"
      using i(1,2) nan first
      by (intro exI [of _ i]) (simp add: GreedySampler_call_def TemperatureSampler_call_def returns_def)
  qed
  have 10: "NaN \<in> set logits \<and> temperature s1 \<noteq> 0 \<longrightarrow>
            TemperatureSampler_call s1 logits = Inl TorchError"
    using Temperature_NaN by blast
  have 11: "NaN \<in> set logits \<and> 1 \<le> k s2 \<and> topk_result logits (k s2) c2 \<longrightarrow>
            TopKSampler_call s2 logits c2 = Inl TorchError"
    using TopK_NaN by blast
  have 12: "NaN \<in> set logits \<and> sort_result (softmax logits) c3 \<longrightarrow>
            TopPSampler_call s3 logits c3 = Inl TorchError"
    using TopP_NaN by blast
  show ?thesis
    by (intro conjI 1 2 3 4 5 6 7 8 9 10 11 12)
qed

theorem logits_are_not_validated_witness:
  "1 \<le> k \<lparr>k = 1\<rparr> \<and> TopKSampler_call \<lparr>k = 1\<rparr> [] [] = Inl TorchError \<and>
   NaN \<in> set [Finite 1, NaN] \<and>
   (\<exists>i. GreedySampler_call [Finite 1, NaN] = Inr i \<and> i < length [Finite 1, NaN] \<and>
        [Finite 1, NaN] ! i = NaN \<and> (\<forall>j<i. [Finite 1, NaN] ! j \<noteq> NaN) \<and>
        TemperatureSampler_call \<lparr>temperature = 0\<rparr> [Finite 1, NaN] = Inr {i}) \<and>
   temperature \<lparr>temperature = 1\<rparr> \<noteq> 0 \<and>
   TemperatureSampler_call \<lparr>temperature = 1\<rparr> [Finite 1, NaN] = Inl TorchError \<and>
   topk_result [Finite 1, NaN] (k \<lparr>k = 1\<rparr>) [1] \<and>
   TopKSampler_call \<lparr>k = 1\<rparr> [Finite 1, NaN] [1] = Inl TorchError \<and>
   sort_result (softmax [Finite 1, NaN]) [0, 1] \<and>
   TopPSampler_call \<lparr>p = 1 / 2\<rparr> [Finite 1, NaN] [0, 1] = Inl TorchError"
proof -
  have k1: "1 \<le> k \<lparr>k = 1\<rparr>" by simp
  have n: "NaN \<in> set [Finite 1, NaN]" by simp
  have t: "temperature \<lparr>temperature = 1\<rparr> \<noteq> 0" by simp
  have tk: "topk_result [Finite 1, NaN] (k \<lparr>k = 1\<rparr>) [1]"
    by (simp add: topk_result_def upt_rec torch_ge_def)
  have sr: "sort_result (softmax [Finite 1, NaN]) [0, 1]"
    by (simp add: softmax_def fmax_def sort_result_def torch_ge_def)
  note e = logits_are_not_validated [of "[]" "\<lparr>temperature = 1\<rparr>" "\<lparr>k = 1\<rparr>" "[]" "\<lparr>p = 1 / 2\<rparr>" "[]"]
  note th = logits_are_not_validated [of "[Finite 1, NaN]" "\<lparr>temperature = 1\<rparr>" "\<lparr>k = 1\<rparr>" "[1]"
      "\<lparr>p = 1 / 2\<rparr>" "[0, 1]"]
  have a: "TopKSampler_call \<lparr>k = 1\<rparr> [] [] = Inl TorchError" using e k1 by blast
  have b: "\<exists>i. GreedySampler_call [Finite 1, NaN] = Inr i \<and> i < length [Finite 1, NaN] \<and>
        [Finite 1, NaN] ! i = NaN \<and> (\<forall>j<i. [Finite 1, NaN] ! j \<noteq> NaN) \<and>
        TemperatureSampler_call \<lparr>temperature = 0\<rparr> [Finite 1, NaN] = Inr {i}"
    using th n by blast
  have c: "TemperatureSampler_call \<lparr>temperature = 1\<rparr> [Finite 1, NaN] = Inl TorchError"
    using th n t by blast
  have d: "TopKSampler_call \<lparr>k = 1\<rparr> [Finite 1, NaN] [1] = Inl TorchError"
    using th n k1 tk by blast
  have f: "TopPSampler_call \<lparr>p = 1 / 2\<rparr> [Finite 1, NaN] [0, 1] = Inl TorchError"
    using th n sr by blast
  show ?thesis
    by (intro conjI k1 a n b t c tk d sr f)
qed

theorem invalid_logits_counterexample:
  "GreedySampler_call [Finite 1, NaN] = Inr 1 \<and>
   GreedySampler_call [PosInf, Finite 0] = Inr 0 \<and>
   TemperatureSampler_call \<lparr>temperature = 1\<rparr> [NegInf, Finite 0] = Inr {1} \<and>
   GreedySampler_call [] = Inl TorchError \<and>
   GreedySampler_call [] \<noteq> Inl InvalidInput"
  by (simp add: GreedySampler_call_def argmax_def greater_or_nan_def fgt_def
     TemperatureSampler_call_def TemperatureSampler_probs_def softmax_def fmax_def fsub_def fsum_def
     multinomial_def fge_def fle_def)

end
